theory Spec2Isabelle
  imports Main "HOL-Library.Word" "HOL-Library.AList"
begin

section \<open>The rate limiter of methods.go\<close>

text \<open>
  A shallow embedding of the methods of \<open>Limiter\<close> and \<open>UserStatus\<close> in
  \<^verbatim>\<open>methods.go\<close>. A method with a pointer receiver becomes a function that takes the
  receiver's value and returns the updated one; a method that can dereference a nil pointer
  or assign into a nil map returns a \<open>panic + 'a\<close>; a method that reads the clock takes
  the instant \<open>now\<close> that \<^verbatim>\<open>time.Now()\<close> returns.
\<close>

subsection \<open>Integers, durations and instants\<close>

text \<open>
  Go's \<^verbatim>\<open>int64\<close> and \<^verbatim>\<open>time.Duration\<close> (an \<^verbatim>\<open>int64\<close> count of nanoseconds) are
  64-bit words: \<open>+\<close> wraps around, and the comparisons of the source are the signed ones,
  \<open><s\<close> and \<open>\<le>s\<close>. An instant (\<^verbatim>\<open>time.Time\<close>) is the number of nanoseconds since the
  zero instant of the \<^verbatim>\<open>time\<close> package, for which \<^verbatim>\<open>IsZero\<close> holds; its range is far wider
  than that of a duration, so it is an unbounded integer.
\<close>

type_synonym int64 = "64 word"
type_synonym Duration = "64 word"
type_synonym Time = int

definition Second :: Duration where
  "Second = 1000000000"

definition Minute :: Duration where
  "Minute = 60 * Second"

definition maxDuration :: Duration where
  "maxDuration = 9223372036854775807"

definition minDuration :: Duration where
  "minDuration = - 9223372036854775808"

definition IsZero :: "Time \<Rightarrow> bool" where
  "IsZero t = (t = 0)"

text \<open>
  \<^verbatim>\<open>time.Since(t)\<close> is \<^verbatim>\<open>time.Now().Sub(t)\<close>. The \<^verbatim>\<open>time\<close> package documents \<^verbatim>\<open>Sub\<close> as
  saturating: a difference beyond the range of a duration is the maximum (or minimum)
  duration.
\<close>

definition Since :: "Time \<Rightarrow> Time \<Rightarrow> Duration" where
  "Since now t =
     (let d = now - t in
      if sint maxDuration < d then maxDuration
      else if d < sint minDuration then minDuration
      else word_of_int d)"

subsection \<open>The data of the package\<close>

text \<open>
  Modelled from the spec: the declarations of the structs \<open>customIgnore\<close>,
  \<open>UserStatus\<close> and \<open>Limiter\<close> are in a file of the package other than
  \<^verbatim>\<open>methods.go\<close>. The records below have the fields that \<^verbatim>\<open>methods.go\<close> reads and
  writes, with the types it uses them at, and \<open>count\<close>, which the data model of the
  specification lists. A pointer that may be nil is an \<open>option\<close>. A slice is a list:
  the source tells a nil slice from an empty one nowhere (it tests \<^verbatim>\<open>len\<close> only).
\<close>

record customIgnore =
  startTime :: Time
  duration :: Duration
  ignoreException :: bool

record UserStatus =
  Last :: Time
  limited :: bool
  count :: int
  custom :: "customIgnore option"

text \<open>\<^verbatim>\<open>new(UserStatus)\<close>: every field has its zero value.\<close>

definition new_UserStatus :: UserStatus where
  "new_UserStatus = \<lparr>Last = 0, limited = False, count = 0, custom = None\<rparr>"

text \<open>
  The parts of the messages of the bot library (\<^verbatim>\<open>gotgbot.Message\<close>,
  \<^verbatim>\<open>gotgbot.CallbackQuery\<close>) that the exception checks read. \<^verbatim>\<open>msg.From\<close> is a pointer,
  \<^verbatim>\<open>msg.Chat\<close> and \<^verbatim>\<open>cq.From\<close> are values, \<^verbatim>\<open>cq.Message\<close> may be nil.
\<close>

record User =
  User_Id :: int64

record Chat =
  Chat_Id :: int64

record Message =
  From :: "User option"
  Chat :: Chat
  Text :: string

record CallbackQuery =
  cq_From :: User
  cq_Message :: "Message option"

text \<open>
  The context of an update (\<^verbatim>\<open>ext.Context\<close>) holds the callback query or the message. A
  trigger (\<^verbatim>\<open>handlers.Response\<close>) is a function of the context that reports whether it
  succeeded; a filter (\<^verbatim>\<open>filters.Message\<close>) is a predicate on messages. The methods
  below store and pass such functions on and never look into them.
\<close>

record Context =
  ctx_CallbackQuery :: "CallbackQuery option"
  ctx_Message :: "Message option"

type_synonym Response = "Context \<Rightarrow> bool"

text \<open>
  The lock is only ever tested for nil, locked and unlocked again within one method, so
  at rest it carries no state of its own.
\<close>

datatype RWMutex = RWMutex

text \<open>
  The registry \<^verbatim>\<open>map[int64]*UserStatus\<close> is an association list of keys and pointers
  (\<open>None\<close> a nil pointer), read with \<open>map_of\<close>, assigned with \<open>AList.update\<close> and
  deleted from with \<open>AList.delete\<close>; \<open>None\<close> for the whole is the nil map. Every
  pointer the methods below store is fresh (\<^verbatim>\<open>new(UserStatus)\<close>), so a status is kept
  by value under its key. A trigger in the list may be a nil function value (\<open>None\<close>).
\<close>

type_synonym registry = "(int64 \<times> UserStatus option) list"

record Limiter =
  mutex :: "RWMutex option"
  userMap :: "registry option"
  isEnabled :: bool
  isStopped :: bool
  TextOnly :: bool
  triggers :: "Response option list"
  exceptions :: "(Message \<Rightarrow> bool) list"
  conditions :: "(Message \<Rightarrow> bool) list"
  exceptionIDs :: "int64 list"
  ignoredExceptions :: "int64 list"
  timeout :: Duration
  punishment :: Duration
  maxCount :: int
  maxTimeout :: Duration

text \<open>The zero value \<^verbatim>\<open>Limiter{}\<close>.\<close>

definition zero_Limiter :: "Limiter" where
  "zero_Limiter =
     \<lparr>mutex = None, userMap = None, isEnabled = False, isStopped = False,
      TextOnly = False, triggers = [], exceptions = [], conditions = [],
      exceptionIDs = [], ignoredExceptions = [], timeout = 0, punishment = 0,
      maxCount = 0, maxTimeout = 0\<rparr>"

text \<open>The run-time panics the methods can raise.\<close>

datatype panic = NilPointerDereference | NilMapAssignment

subsection \<open>Lifecycle\<close>

text \<open>
  \<^verbatim>\<open>Start\<close>; the reaper it spawns (\<^verbatim>\<open>go l.checker()\<close>) is \<open>checker\<close> below, run on
  the state this function returns.
\<close>

definition Start :: "Limiter \<Rightarrow> Limiter" where
  "Start l =
     (if isEnabled l then l
      else
        let l1 = (if mutex l = None then l\<lparr>mutex := Some RWMutex\<rparr> else l);
            l2 = (if userMap l1 = None then l1\<lparr>userMap := Some []\<rparr> else l1)
        in l2\<lparr>isEnabled := True, isStopped := False\<rparr>)"

definition Stop :: "Limiter \<Rightarrow> Limiter" where
  "Stop l =
     (if isStopped l then l
      else
        let l1 = l\<lparr>isEnabled := False, isStopped := True\<rparr>
        in if mutex l1 \<noteq> None then l1\<lparr>userMap := None, mutex := None\<rparr> else l1)"

subsection \<open>Triggers, exception filters, conditions\<close>

text \<open>A variadic parameter is the list of the arguments.\<close>

definition SetTriggerFuncs :: "Limiter \<Rightarrow> Response option list \<Rightarrow> Limiter" where
  "SetTriggerFuncs l t = l\<lparr>triggers := t\<rparr>"

definition SetTriggerFunc :: "Limiter \<Rightarrow> Response option \<Rightarrow> Limiter" where
  "SetTriggerFunc l t = SetTriggerFuncs l [t]"

definition AppendTriggerFuncs :: "Limiter \<Rightarrow> Response option list \<Rightarrow> Limiter" where
  "AppendTriggerFuncs l t = l\<lparr>triggers := triggers l @ t\<rparr>"

definition AppendTriggerFunc :: "Limiter \<Rightarrow> Response option \<Rightarrow> Limiter" where
  "AppendTriggerFunc l t = l\<lparr>triggers := triggers l @ [t]\<rparr>"

definition AddException :: "Limiter \<Rightarrow> (Message \<Rightarrow> bool) \<Rightarrow> Limiter" where
  "AddException l ex = l\<lparr>exceptions := exceptions l @ [ex]\<rparr>"

definition ClearAllExceptions :: "Limiter \<Rightarrow> Limiter" where
  "ClearAllExceptions l = l\<lparr>exceptions := []\<rparr>"

definition SetTextOnly :: "Limiter \<Rightarrow> bool \<Rightarrow> Limiter" where
  "SetTextOnly l t = l\<lparr>TextOnly := t\<rparr>"

definition AddCondition :: "Limiter \<Rightarrow> (Message \<Rightarrow> bool) \<Rightarrow> Limiter" where
  "AddCondition l condition = l\<lparr>conditions := conditions l @ [condition]\<rparr>"

definition ClearAllConditions :: "Limiter \<Rightarrow> Limiter" where
  "ClearAllConditions l = l\<lparr>conditions := []\<rparr>"

definition AddConditions :: "Limiter \<Rightarrow> (Message \<Rightarrow> bool) list \<Rightarrow> Limiter" where
  "AddConditions l cs = l\<lparr>conditions := conditions l @ cs\<rparr>"

definition SetAsConditions :: "Limiter \<Rightarrow> (Message \<Rightarrow> bool) list \<Rightarrow> Limiter" where
  "SetAsConditions l cs = l\<lparr>conditions := cs\<rparr>"

subsection \<open>The exception-ID list\<close>

text \<open>\<^verbatim>\<open>AddExceptionID(id ...int64)\<close> is variadic: it takes the list of its arguments.\<close>

definition AddExceptionID :: "Limiter \<Rightarrow> int64 list \<Rightarrow> Limiter" where
  "AddExceptionID l ids = l\<lparr>exceptionIDs := exceptionIDs l @ ids\<rparr>"

definition ClearAllExceptionIDs :: "Limiter \<Rightarrow> Limiter" where
  "ClearAllExceptionIDs l = l\<lparr>exceptionIDs := []\<rparr>"

definition SetAsExceptionList :: "Limiter \<Rightarrow> int64 list \<Rightarrow> Limiter" where
  "SetAsExceptionList l list = l\<lparr>exceptionIDs := list\<rparr>"

text \<open>The scan \<^verbatim>\<open>for _, ex := range ids { if ex == id { return true } }\<close>.\<close>

fun scan_ids :: "int64 list \<Rightarrow> int64 \<Rightarrow> bool" where
  "scan_ids [] uid = False"
| "scan_ids (ex # exs) uid = (if ex = uid then True else scan_ids exs uid)"

definition IsInExceptionList :: "Limiter \<Rightarrow> int64 \<Rightarrow> bool" where
  "IsInExceptionList l uid =
     (if length (exceptionIDs l) = 0 then False else scan_ids (exceptionIDs l) uid)"

subsection \<open>Configuration\<close>

definition SetFloodWaitTime :: "Limiter \<Rightarrow> Duration \<Rightarrow> Limiter" where
  "SetFloodWaitTime l d = l\<lparr>timeout := d\<rparr>"

definition SetPunishmentDuration :: "Limiter \<Rightarrow> Duration \<Rightarrow> Limiter" where
  "SetPunishmentDuration l d = l\<lparr>punishment := d\<rparr>"

definition SetMaxMessageCount :: "Limiter \<Rightarrow> int \<Rightarrow> Limiter" where
  "SetMaxMessageCount l c = l\<lparr>maxCount := c\<rparr>"

definition SetMaxCacheDuration :: "Limiter \<Rightarrow> Duration \<Rightarrow> Limiter" where
  "SetMaxCacheDuration l d =
     (if punishment l + timeout l <s d then l\<lparr>maxTimeout := d\<rparr>
      else l\<lparr>maxTimeout := punishment l + timeout l + Minute\<rparr>)"

definition SetDefaultInterval :: "Limiter \<Rightarrow> Limiter" where
  "SetDefaultInterval l = l\<lparr>maxTimeout := punishment l + timeout l + Minute\<rparr>"

subsection \<open>The ignored-exceptions list\<close>

definition addIgnoredExceptions :: "Limiter \<Rightarrow> int64 \<Rightarrow> Limiter" where
  "addIgnoredExceptions l uid =
     (if length (ignoredExceptions l) = 0
      then l\<lparr>ignoredExceptions := ignoredExceptions l @ [uid]\<rparr>
      else if scan_ids (ignoredExceptions l) uid then l
      else l\<lparr>ignoredExceptions := ignoredExceptions l @ [uid]\<rparr>)"

text \<open>
  The loop \<^verbatim>\<open>for i, ex := range l.ignoredExceptions\<close> of
  \<^verbatim>\<open>removeFromIgnoredExceptions\<close>, from index \<open>i\<close> on: at the first \<open>i\<close> with
  \<^verbatim>\<open>ex == id\<close> the list becomes \<^verbatim>\<open>append(xs[:i], xs[i+1:]...)\<close> and the method returns.
\<close>

function remove_scan :: "int64 list \<Rightarrow> nat \<Rightarrow> int64 \<Rightarrow> int64 list" where
  "remove_scan xs i uid =
     (if i < length xs
      then (if xs ! i = uid then take i xs @ drop (i + 1) xs
            else remove_scan xs (i + 1) uid)
      else xs)"
  by pat_completeness auto
termination
  by (relation "measure (\<lambda>(xs, i, uid). length xs - i)") auto

declare remove_scan.simps [simp del]

definition removeFromIgnoredExceptions :: "Limiter \<Rightarrow> int64 \<Rightarrow> Limiter" where
  "removeFromIgnoredExceptions l uid =
     (if length (ignoredExceptions l) = 0 then l
      else l\<lparr>ignoredExceptions := remove_scan (ignoredExceptions l) 0 uid\<rparr>)"

subsection \<open>The status of an identity\<close>

definition IsLimited :: "UserStatus \<Rightarrow> bool" where
  "IsLimited s = limited s"

text \<open>
  \<^verbatim>\<open>IsCustomLimited\<close> clears \<^verbatim>\<open>s.custom\<close> when the override has expired, so it returns
  the result and the status.
\<close>

definition IsCustomLimited :: "Time \<Rightarrow> UserStatus \<Rightarrow> bool \<times> UserStatus" where
  "IsCustomLimited now s =
     (case custom s of
        None \<Rightarrow> (False, s)
      | Some c \<Rightarrow>
          if duration c <s Since now (startTime c) \<and> duration c \<noteq> 0
          then (False, s\<lparr>custom := None\<rparr>)
          else (True, s))"

text \<open>
  \<^verbatim>\<open>canBeDeleted\<close>, with the short-circuit evaluation of \<^verbatim>\<open>||\<close> and \<^verbatim>\<open>&&\<close>:
  \<^verbatim>\<open>IsCustomLimited\<close> runs, and may clear the override, only when the operands before it
  let it. The clock reads of one call are taken at the same instant \<open>now\<close>.
\<close>

definition canBeDeleted :: "Time \<Rightarrow> UserStatus \<Rightarrow> Limiter \<Rightarrow> bool \<times> UserStatus" where
  "canBeDeleted now s l =
     (if IsZero (Last s) then (True, s)
      else if timeout l <s Since now (Last s) \<and> \<not> limited s
      then (let (b, s') = IsCustomLimited now s in (\<not> b, s'))
      else (False, s))"

subsection \<open>Reading and overriding a status\<close>

text \<open>
  \<^verbatim>\<open>l.userMap[id]\<close>: reading a nil map, an absent key or a key that holds a nil pointer
  gives nil.
\<close>

definition lookup_status :: "registry option \<Rightarrow> int64 \<Rightarrow> UserStatus option" where
  "lookup_status um uid =
     (case um of
        None \<Rightarrow> None
      | Some m \<Rightarrow> (case map_of m uid of None \<Rightarrow> None | Some p \<Rightarrow> p))"

text \<open>
  \<^verbatim>\<open>l.mutex.RLock()\<close> and \<^verbatim>\<open>l.mutex.Lock()\<close> dereference \<^verbatim>\<open>l.mutex\<close>: on a nil lock they
  panic, before anything else in the method runs.
\<close>

definition GetStatus :: "Limiter \<Rightarrow> int64 \<Rightarrow> panic + UserStatus option" where
  "GetStatus l uid =
     (case mutex l of
        None \<Rightarrow> Inl NilPointerDereference
      | Some _ \<Rightarrow> Inr (lookup_status (userMap l) uid))"

definition AddCustomIgnore ::
  "Time \<Rightarrow> Limiter \<Rightarrow> int64 \<Rightarrow> Duration \<Rightarrow> bool \<Rightarrow> panic + Limiter" where
  "AddCustomIgnore now l uid d ignoreExceptions =
     (case mutex l of
        None \<Rightarrow> Inl NilPointerDereference
      | Some _ \<Rightarrow>
          (case lookup_status (userMap l) uid of
             None \<Rightarrow>
               (let status = new_UserStatus
                      \<lparr>custom := Some \<lparr>startTime = now, duration = d,
                                       ignoreException = ignoreExceptions\<rparr>\<rparr>
                in case userMap l of
                     None \<Rightarrow> Inl NilMapAssignment
                   | Some m \<Rightarrow>
                       (let l1 = l\<lparr>userMap := Some (AList.update uid (Some status) m)\<rparr>
                        in if ignoreExceptions then Inr (addIgnoredExceptions l1 uid)
                           else Inr l1))
           | Some status \<Rightarrow>
               (let status' = status
                      \<lparr>custom := Some \<lparr>startTime = now, duration = d,
                                       ignoreException = ignoreExceptions\<rparr>\<rparr>;
                    l1 = l\<lparr>userMap := map_option (AList.update uid (Some status')) (userMap l)\<rparr>
                in if ignoreExceptions then Inr (addIgnoredExceptions l1 uid)
                   else Inr l1)))"

definition RemoveCustomIgnore :: "Limiter \<Rightarrow> int64 \<Rightarrow> panic + Limiter" where
  "RemoveCustomIgnore l uid =
     (case mutex l of
        None \<Rightarrow> Inl NilPointerDereference
      | Some _ \<Rightarrow>
          (case lookup_status (userMap l) uid of
             None \<Rightarrow> Inr l
           | Some status \<Rightarrow>
               (case custom status of
                  None \<Rightarrow> Inr l
                | Some c \<Rightarrow>
                    (let l1 = (if ignoreException c then removeFromIgnoredExceptions l uid else l)
                     in Inr (l1\<lparr>userMap :=
                               map_option (AList.update uid (Some (status\<lparr>custom := None\<rparr>)))
                                 (userMap l1)\<rparr>)))))"

subsection \<open>Exception membership\<close>

text \<open>
  The loops of \<^verbatim>\<open>isException\<close> and \<^verbatim>\<open>isExceptionQuery\<close>. Their bodies read
  \<^verbatim>\<open>msg.From\<close> and \<^verbatim>\<open>cq.From\<close>: with a nil \<^verbatim>\<open>msg\<close> or \<^verbatim>\<open>cq\<close> the first membership test
  would dereference nil.
\<close>

fun isException_loop :: "int64 list \<Rightarrow> Message option \<Rightarrow> panic + bool" where
  "isException_loop [] msg = Inr False"
| "isException_loop (ex # exs) None = Inl NilPointerDereference"
| "isException_loop (ex # exs) (Some m) =
     (case From m of
        Some u \<Rightarrow>
          if ex = User_Id u \<or> ex = Chat_Id (Chat m) then Inr True
          else isException_loop exs (Some m)
      | None \<Rightarrow>
          if ex = Chat_Id (Chat m) then Inr True
          else isException_loop exs (Some m))"

definition isException :: "Limiter \<Rightarrow> Message option \<Rightarrow> panic + bool" where
  "isException l msg =
     (if length (exceptionIDs l) = 0 \<or> msg = None then Inr False
      else isException_loop (exceptionIDs l) msg)"

fun isExceptionQuery_loop :: "int64 list \<Rightarrow> CallbackQuery option \<Rightarrow> panic + bool" where
  "isExceptionQuery_loop [] cq = Inr False"
| "isExceptionQuery_loop (ex # exs) None = Inl NilPointerDereference"
| "isExceptionQuery_loop (ex # exs) (Some q) =
     (if ex = User_Id (cq_From q)
         \<or> (case cq_Message q of None \<Rightarrow> False | Some m \<Rightarrow> ex = Chat_Id (Chat m))
      then Inr True
      else isExceptionQuery_loop exs (Some q))"

definition isExceptionQuery :: "Limiter \<Rightarrow> CallbackQuery option \<Rightarrow> panic + bool" where
  "isExceptionQuery l cq =
     (if length (exceptionIDs l) = 0 \<or> cq = None then Inr False
      else isExceptionQuery_loop (exceptionIDs l) cq)"

definition isExceptionCtx :: "Limiter \<Rightarrow> Context \<Rightarrow> panic + bool" where
  "isExceptionCtx l ctx =
     (if ctx_CallbackQuery ctx \<noteq> None then isExceptionQuery l (ctx_CallbackQuery ctx)
      else isException l (ctx_Message ctx))"

subsection \<open>The reaper\<close>

text \<open>
  The sweep \<^verbatim>\<open>for key, value := range l.userMap\<close> over the entries still to visit, with
  the map as it is so far. \<open>clock key\<close> is the instant at which the entry of \<open>key\<close> is
  visited. What \<^verbatim>\<open>canBeDeleted\<close> writes through the pointer is stored back under the key.
\<close>

fun sweep :: "(int64 \<Rightarrow> Time) \<Rightarrow> Limiter \<Rightarrow> registry \<Rightarrow> registry \<Rightarrow> registry" where
  "sweep clock l [] m = m"
| "sweep clock l ((key, value) # rest) m =
     (case value of
        None \<Rightarrow> sweep clock l rest (AList.delete key m)
      | Some s \<Rightarrow>
          (let (b, s') = canBeDeleted (clock key) s l
           in if b then sweep clock l rest (AList.delete key m)
              else sweep clock l rest (AList.update key (Some s') m)))"

text \<open>
  One pass through the \<^verbatim>\<open>for\<close> loop of \<^verbatim>\<open>checker\<close>, its guard included. While the reaper
  sleeps the other goroutines run: \<open>env\<close> is what they do to the limiter in that time.
  A pass ends the loop (\<open>Exit\<close>) or leads to the next one (\<open>Next\<close>); \<open>slept\<close> is
  the argument of \<^verbatim>\<open>time.Sleep\<close>, \<open>None\<close> when the pass does not reach it.
\<close>

datatype 'l pass = Exit 'l | Next 'l

definition checker_pass ::
  "(Limiter \<Rightarrow> Limiter) \<Rightarrow> (int64 \<Rightarrow> Time) \<Rightarrow> Limiter
     \<Rightarrow> Duration option \<times> Limiter pass" where
  "checker_pass env clock l =
     (if \<not> (isEnabled l \<and> \<not> isStopped l) then (None, Exit l)
      else
        let l1 = (if maxTimeout l <s Second then SetDefaultInterval l else l);
            slept = maxTimeout l1;
            l2 = env l1
        in case (userMap l2, mutex l2) of
             (Some m, Some _) \<Rightarrow>
               if length m = 0 then (Some slept, Next l2)
               else (Some slept, Next (l2\<lparr>userMap := Some (sweep clock l2 m m)\<rparr>))
           | _ \<Rightarrow> (Some slept, Exit l2))"

text \<open>
  The loop itself, which by design runs until the limiter is stopped: \<open>fuel\<close> bounds the
  number of passes, \<open>env i\<close> and \<open>clock i\<close> belong to pass \<open>i\<close>. The result is the
  list of the sleeps and the limiter at the exit, \<open>None\<close> when the fuel runs out first.
\<close>

fun checker ::
  "nat \<Rightarrow> (nat \<Rightarrow> Limiter \<Rightarrow> Limiter) \<Rightarrow> (nat \<Rightarrow> int64 \<Rightarrow> Time) \<Rightarrow> nat \<Rightarrow> Limiter
     \<Rightarrow> (Duration list \<times> Limiter) option" where
  "checker 0 env clock i l = None"
| "checker (Suc fuel) env clock i l =
     (case checker_pass (env i) (clock i) l of
        (sl, Exit l') \<Rightarrow> Some (case sl of None \<Rightarrow> [] | Some d \<Rightarrow> [d], l')
      | (sl, Next l') \<Rightarrow>
          (case checker fuel env clock (Suc i) l' of
             None \<Rightarrow> None
           | Some (ds, l'') \<Rightarrow> Some ((case sl of None \<Rightarrow> [] | Some d \<Rightarrow> [d]) @ ds, l'')))"

text \<open>
  A clock that stands still at \<open>t\<close> while the reaper sweeps, for the examples below.
\<close>

definition still_clock :: "Time \<Rightarrow> int64 \<Rightarrow> Time" where
  "still_clock t key = t"

subsection \<open>The limiters the methods reach\<close>

text \<open>
  The limiters that the methods above make of the zero value, one call after the other;
  a pass of the reaper counts as one call, nothing else running while it sleeps.
\<close>

inductive reachable :: "Limiter \<Rightarrow> bool" where
  zero: "reachable zero_Limiter"
| Start: "reachable l \<Longrightarrow> reachable (Start l)"
| Stop: "reachable l \<Longrightarrow> reachable (Stop l)"
| SetTriggerFuncs: "reachable l \<Longrightarrow> reachable (SetTriggerFuncs l ts)"
| SetTriggerFunc: "reachable l \<Longrightarrow> reachable (SetTriggerFunc l t)"
| AppendTriggerFuncs: "reachable l \<Longrightarrow> reachable (AppendTriggerFuncs l ts)"
| AppendTriggerFunc: "reachable l \<Longrightarrow> reachable (AppendTriggerFunc l t)"
| AddException: "reachable l \<Longrightarrow> reachable (AddException l ex)"
| ClearAllExceptions: "reachable l \<Longrightarrow> reachable (ClearAllExceptions l)"
| SetTextOnly: "reachable l \<Longrightarrow> reachable (SetTextOnly l b)"
| AddExceptionID: "reachable l \<Longrightarrow> reachable (AddExceptionID l ids)"
| AddCondition: "reachable l \<Longrightarrow> reachable (AddCondition l c)"
| ClearAllConditions: "reachable l \<Longrightarrow> reachable (ClearAllConditions l)"
| AddConditions: "reachable l \<Longrightarrow> reachable (AddConditions l cs)"
| SetAsConditions: "reachable l \<Longrightarrow> reachable (SetAsConditions l cs)"
| ClearAllExceptionIDs: "reachable l \<Longrightarrow> reachable (ClearAllExceptionIDs l)"
| SetAsExceptionList: "reachable l \<Longrightarrow> reachable (SetAsExceptionList l list)"
| SetFloodWaitTime: "reachable l \<Longrightarrow> reachable (SetFloodWaitTime l d)"
| SetPunishmentDuration: "reachable l \<Longrightarrow> reachable (SetPunishmentDuration l d)"
| SetMaxMessageCount: "reachable l \<Longrightarrow> reachable (SetMaxMessageCount l c)"
| SetMaxCacheDuration: "reachable l \<Longrightarrow> reachable (SetMaxCacheDuration l d)"
| SetDefaultInterval: "reachable l \<Longrightarrow> reachable (SetDefaultInterval l)"
| AddCustomIgnore:
    "reachable l \<Longrightarrow> AddCustomIgnore now l uid d ign = Inr l' \<Longrightarrow> reachable l'"
| RemoveCustomIgnore:
    "reachable l \<Longrightarrow> RemoveCustomIgnore l uid = Inr l' \<Longrightarrow> reachable l'"
| checker_Exit:
    "reachable l \<Longrightarrow> snd (checker_pass id clock l) = Exit l' \<Longrightarrow> reachable l'"
| checker_Next:
    "reachable l \<Longrightarrow> snd (checker_pass id clock l) = Next l' \<Longrightarrow> reachable l'"

text \<open>The registry map is allocated only together with its lock.\<close>

definition map_has_lock :: "Limiter \<Rightarrow> bool" where
  "map_has_lock l \<longleftrightarrow> (mutex l = None \<longrightarrow> userMap l = None)"

section \<open>Auxiliary facts\<close>

subsection \<open>Durations\<close>

lemma sint_maxDuration: "sint maxDuration = 9223372036854775807"
  by (simp add: maxDuration_def)

lemma sint_minDuration: "sint minDuration = - 9223372036854775808"
  by (simp add: minDuration_def)

lemma sint_Second: "sint Second = 1000000000"
  by (simp add: Second_def)

lemma sint_Minute: "sint Minute = 60000000000"
  by (simp add: Minute_def Second_def)

text \<open>
  Within the range of a duration \<open>Since\<close> is the difference of the instants; and an
  elapsed time exceeds a duration \<open>d\<close> exactly when the difference of the instants
  does, unless \<open>d\<close> is the longest duration, which nothing exceeds.
\<close>

lemma Since_in_range:
  assumes "- (2 ^ 63) \<le> now - t" "now - t < 2 ^ 63"
  shows "sint (Since now t) = now - t"
proof -
  have "sint (word_of_int (now - t) :: 64 word) = now - t"
    unfolding sint_sbintrunc' using assms by (intro signed_take_bit_int_eq_self) simp_all
  with assms show ?thesis
    by (simp add: Since_def sint_maxDuration sint_minDuration Let_def del: of_int_diff)
qed

lemma Since_exceeds_iff:
  "d <s Since now t \<longleftrightarrow> d \<noteq> maxDuration \<and> sint d < now - t"
proof -
  have bd: "- (2 ^ 63) \<le> sint d" "sint d < 2 ^ 63"
    using sint_ge [of d] sint_lt [of d] by simp_all
  consider (hi) "2 ^ 63 \<le> now - t" | (lo) "now - t < - (2 ^ 63)"
    | (mid) "- (2 ^ 63) \<le> now - t" "now - t < 2 ^ 63"
    by linarith
  then show ?thesis
  proof cases
    case hi
    then have S: "Since now t = maxDuration"
      by (simp add: Since_def sint_maxDuration Let_def)
    have "d <s maxDuration \<longleftrightarrow> d \<noteq> maxDuration"
    proof
      assume "d <s maxDuration" then show "d \<noteq> maxDuration" by auto
    next
      assume ne: "d \<noteq> maxDuration"
      have "sint d \<noteq> sint maxDuration"
        using ne by (auto dest: signed_word_eqI)
      with bd show "d <s maxDuration"
        by (simp add: word_sless_alt sint_maxDuration)
    qed
    moreover have "sint d < now - t" using hi bd by linarith
    ultimately show ?thesis using S by simp
  next
    case lo
    then have S: "Since now t = minDuration"
      by (simp add: Since_def sint_maxDuration sint_minDuration Let_def)
    have "\<not> d <s minDuration"
      using bd by (simp add: word_sless_alt sint_minDuration)
    moreover have "\<not> sint d < now - t" using lo bd by linarith
    ultimately show ?thesis using S by simp
  next
    case mid
    have "sint (Since now t) = now - t"
      using mid by (rule Since_in_range)
    moreover have "d = maxDuration \<Longrightarrow> \<not> sint d < now - t"
      using mid by (simp add: sint_maxDuration)
    ultimately show ?thesis
      by (auto simp: word_sless_alt)
  qed
qed

text \<open>
  The default interval is at least a second when punishment and window are not negative
  and the sum does not overflow.
\<close>

lemma default_interval_ge_Second:
  assumes "0 \<le>s p" "0 \<le>s t" "sint p + sint t + sint Minute \<le> sint maxDuration"
  shows "Second \<le>s p + t + Minute"
proof -
  have p: "0 \<le> sint p" and t: "0 \<le> sint t"
    using assms(1,2) by (simp_all add: word_sle_eq)
  have b: "sint p + sint t + 60000000000 \<le> 9223372036854775807"
    using assms(3) by (simp add: sint_Minute sint_maxDuration)
  have "sint (p + t) = signed_take_bit 63 (sint p + sint t)"
    by (simp add: sint_word_ariths)
  also have "\<dots> = sint p + sint t"
    using p t b by (intro signed_take_bit_int_eq_self) simp_all
  finally have pt: "sint (p + t) = sint p + sint t" .
  have "sint (p + t + Minute) = signed_take_bit 63 (sint (p + t) + sint Minute)"
    by (simp add: sint_word_ariths)
  also have "\<dots> = sint p + sint t + 60000000000"
    unfolding pt sint_Minute using p t b by (intro signed_take_bit_int_eq_self) simp_all
  finally have "sint (p + t + Minute) = sint p + sint t + 60000000000" .
  with p t show ?thesis
    by (simp add: word_sle_eq sint_Second)
qed

subsection \<open>Scans of the identity lists\<close>

lemma scan_ids_iff: "scan_ids xs uid \<longleftrightarrow> uid \<in> set xs"
  by (induction xs) auto

lemma remove_scan_from:
  "i \<le> length xs \<Longrightarrow> uid \<notin> set (take i xs) \<Longrightarrow>
   remove_scan xs i uid = take i xs @ remove1 uid (drop i xs)"
proof (induction xs i uid rule: remove_scan.induct)
  case (1 xs i uid)
  have unfold: "remove_scan xs i uid =
     (if i < length xs
      then (if xs ! i = uid then take i xs @ drop (i + 1) xs
            else remove_scan xs (i + 1) uid)
      else xs)"
    by (rule remove_scan.simps)
  show ?case
  proof (cases "i < length xs")
    case False
    with "1.prems" show ?thesis unfolding unfold by simp
  next
    case True
    then have d: "drop i xs = xs ! i # drop (i + 1) xs"
      by (simp add: Cons_nth_drop_Suc)
    show ?thesis
    proof (cases "xs ! i = uid")
      case True
      with \<open>i < length xs\<close> d show ?thesis unfolding unfold by simp
    next
      case False
      have t: "take (i + 1) xs = take i xs @ [xs ! i]"
        using \<open>i < length xs\<close> by (simp add: take_Suc_conv_app_nth)
      have "remove_scan xs (i + 1) uid = take (i + 1) xs @ remove1 uid (drop (i + 1) xs)"
        using "1.IH" [OF \<open>i < length xs\<close> False] \<open>i < length xs\<close> "1.prems"(2) False t
        by simp
      with \<open>i < length xs\<close> False d t show ?thesis unfolding unfold by simp
    qed
  qed
qed

lemma remove_scan_remove1: "remove_scan xs 0 uid = remove1 uid xs"
  using remove_scan_from [of 0 xs uid] by simp

lemma ignoredExceptions_add:
  "ignoredExceptions (addIgnoredExceptions l uid) =
     (if uid \<in> set (ignoredExceptions l) then ignoredExceptions l
      else ignoredExceptions l @ [uid])"
  by (auto simp: addIgnoredExceptions_def scan_ids_iff)

lemma userMap_add [simp]: "userMap (addIgnoredExceptions l uid) = userMap l"
  by (simp add: addIgnoredExceptions_def)

subsection \<open>The registry\<close>

lemma lookup_status_update:
  "lookup_status (Some (AList.update k v m)) k' =
     (if k' = k then v else lookup_status (Some m) k')"
  by (simp add: lookup_status_def update_conv')

text \<open>
  A status that \<open>canBeDeleted\<close> does not release is left as it was: the override is
  cleared only on the way to the answer \<open>True\<close>.
\<close>

lemma canBeDeleted_keeps:
  "canBeDeleted now s l = (False, s') \<Longrightarrow> s' = s"
  by (auto simp: canBeDeleted_def IsCustomLimited_def split: option.splits if_splits)

text \<open>
  The sweep of the reaper, key by key: on a registry with unique keys an entry is gone
  afterwards exactly when it held a nil pointer or \<open>canBeDeleted\<close> held of its status
  at the instant it was visited, and every other entry is unchanged.
\<close>

lemma sweep_other_key:
  "k \<notin> fst ` set es \<Longrightarrow> map_of (sweep clock l es m) k = map_of m k"
proof (induction es arbitrary: m)
  case Nil
  then show ?case by simp
next
  case (Cons e es)
  obtain key v where e: "e = (key, v)" by (cases e)
  from Cons.prems e have ne: "k \<noteq> key" and rest: "k \<notin> fst ` set es" by auto
  show ?case
    using Cons.IH [OF rest] ne
    by (simp add: e update_conv' delete_conv' split: option.splits prod.splits)
qed

lemma sweep_visited_key:
  "distinct (map fst es) \<Longrightarrow> map_of es k = Some v \<Longrightarrow>
   map_of (sweep clock l es m) k =
     (case v of
        None \<Rightarrow> None
      | Some s \<Rightarrow> if fst (canBeDeleted (clock k) s l) then None else Some (Some s))"
proof (induction es arbitrary: m)
  case Nil
  then show ?case by simp
next
  case (Cons e es)
  obtain key w where e: "e = (key, w)" by (cases e)
  from Cons.prems(1) e have d: "distinct (map fst es)" and fresh: "key \<notin> fst ` set es"
    by auto
  show ?case
  proof (cases "k = key")
    case True
    with Cons.prems(2) e have w: "w = v" by simp
    show ?thesis
      using fresh
      by (auto simp: e w True sweep_other_key update_conv' delete_conv'
          dest: canBeDeleted_keeps split: option.splits prod.splits)
  next
    case False
    with Cons.prems(2) e have "map_of es k = Some v" by simp
    from Cons.IH [OF d this] show ?thesis
      by (simp add: e split: option.splits prod.splits)
  qed
qed

lemma sweep_lookup:
  assumes "distinct (map fst m)"
  shows "map_of (sweep clock l m m) k =
     (case map_of m k of
        None \<Rightarrow> None
      | Some None \<Rightarrow> None
      | Some (Some s) \<Rightarrow> if fst (canBeDeleted (clock k) s l) then None else Some (Some s))"
proof (cases "map_of m k")
  case None
  then have "k \<notin> fst ` set m" by (simp add: map_of_eq_None_iff)
  then show ?thesis using None by (simp add: sweep_other_key)
next
  case (Some v)
  from sweep_visited_key [OF assms Some] Some show ?thesis
    by (simp split: option.splits)
qed

subsection \<open>Lock and map\<close>

lemma addIgnoredExceptions_fields [simp]:
  "mutex (addIgnoredExceptions l uid) = mutex l"
  "isEnabled (addIgnoredExceptions l uid) = isEnabled l"
  "isStopped (addIgnoredExceptions l uid) = isStopped l"
  "timeout (addIgnoredExceptions l uid) = timeout l"
  "punishment (addIgnoredExceptions l uid) = punishment l"
  "maxTimeout (addIgnoredExceptions l uid) = maxTimeout l"
  by (simp_all add: addIgnoredExceptions_def)

lemma removeFromIgnoredExceptions_fields [simp]:
  "mutex (removeFromIgnoredExceptions l uid) = mutex l"
  "userMap (removeFromIgnoredExceptions l uid) = userMap l"
  by (simp_all add: removeFromIgnoredExceptions_def)

lemma AddCustomIgnore_lock:
  "AddCustomIgnore now l uid d ign = Inr l' \<Longrightarrow> mutex l' \<noteq> None"
  by (auto simp: AddCustomIgnore_def Let_def split: option.splits if_splits)

lemma RemoveCustomIgnore_lock:
  "RemoveCustomIgnore l uid = Inr l' \<Longrightarrow> mutex l' \<noteq> None"
  by (auto simp: RemoveCustomIgnore_def Let_def split: option.splits if_splits)

text \<open>
  No method allocates the map without the lock or releases the lock without the map: on
  every limiter the methods reach, a nil lock means a nil map.
\<close>

lemma checker_pass_map_has_lock:
  assumes "map_has_lock l" and "\<And>x. map_has_lock x \<Longrightarrow> map_has_lock (env x)"
    and "snd (checker_pass env clock l) = Exit l' \<or> snd (checker_pass env clock l) = Next l'"
  shows "map_has_lock l'"
proof -
  let ?l1 = "if maxTimeout l <s Second then SetDefaultInterval l else l"
  have "map_has_lock ?l1"
    using assms(1) by (simp add: map_has_lock_def SetDefaultInterval_def)
  then have "map_has_lock (env ?l1)" by (rule assms(2))
  with assms(1,3) show ?thesis
    by (auto simp: checker_pass_def Let_def map_has_lock_def
        split: if_splits option.splits)
qed

lemma reachable_map_has_lock: "reachable l \<Longrightarrow> map_has_lock l"
proof (induction rule: reachable.induct)
  case zero
  show ?case by (simp add: map_has_lock_def zero_Limiter_def)
next
  case (Start l)
  then show ?case by (simp add: map_has_lock_def Start_def Let_def)
next
  case (Stop l)
  then show ?case by (simp add: map_has_lock_def Stop_def Let_def)
next
  case (AddCustomIgnore l now uid d ign l')
  then show ?case by (simp add: map_has_lock_def AddCustomIgnore_lock)
next
  case (RemoveCustomIgnore l uid l')
  then show ?case by (simp add: map_has_lock_def RemoveCustomIgnore_lock)
next
  case (checker_Exit l clock l')
  then show ?case using checker_pass_map_has_lock [of l id clock l'] by simp
next
  case (checker_Next l clock l')
  then show ?case using checker_pass_map_has_lock [of l id clock l'] by simp
qed (simp_all add: map_has_lock_def SetTriggerFuncs_def SetTriggerFunc_def
    AppendTriggerFuncs_def AppendTriggerFunc_def AddException_def ClearAllExceptions_def
    SetTextOnly_def AddCondition_def ClearAllConditions_def AddConditions_def
    SetAsConditions_def AddExceptionID_def
    ClearAllExceptionIDs_def SetAsExceptionList_def SetFloodWaitTime_def
    SetPunishmentDuration_def SetMaxMessageCount_def SetMaxCacheDuration_def
    SetDefaultInterval_def)

section \<open>Eviction and overrides\<close>

text \<open>
  What \<open>canBeDeleted\<close> computes at the instant \<open>now\<close>: \<open>True\<close> if and only if
  the last-seen instant of the status is zero, or the time since it exceeds the window, the
  status is not limited and it has no active override (none at all, or one whose non-zero
  duration has run out).
\<close>

lemma canBeDeleted_iff:
  "fst (canBeDeleted now s l) \<longleftrightarrow>
     IsZero (Last s) \<or>
     (timeout l <s Since now (Last s) \<and> \<not> limited s \<and>
      (case custom s of None \<Rightarrow> True
       | Some c \<Rightarrow> duration c <s Since now (startTime c) \<and> duration c \<noteq> 0))"
proof (cases "IsZero (Last s)")
  case True
  then show ?thesis by (simp add: canBeDeleted_def)
next
  case False
  have "fst (IsCustomLimited now s) \<longleftrightarrow>
       (case custom s of None \<Rightarrow> False
        | Some c \<Rightarrow> \<not> (duration c <s Since now (startTime c) \<and> duration c \<noteq> 0))"
    by (simp add: IsCustomLimited_def split: option.splits)
  with False show ?thesis
    by (cases "custom s") (auto simp: canBeDeleted_def split: prod.splits)
qed

text \<open>
  The test for the zero instant comes before the tests that protect a limited or
  overridden status, and \<^verbatim>\<open>AddCustomIgnore\<close> makes the status of an identity it has not
  seen with \<^verbatim>\<open>new(UserStatus)\<close>, whose last-seen instant is zero and stays so. Such a
  status is released whatever its override, and on a running limiter the next pass of the
  reaper deletes it.
\<close>

lemma fresh_status_eligible:
  "fst (canBeDeleted now (new_UserStatus\<lparr>custom := c\<rparr>) l)"
  by (simp add: canBeDeleted_def new_UserStatus_def IsZero_def)

lemma fresh_override_reaped_general:
  assumes run: "isEnabled l" "\<not> isStopped l"
    and alloc: "mutex l \<noteq> None" "userMap l = Some m"
    and keys: "distinct (map fst m)"
    and unseen: "lookup_status (Some m) uid = None"
    and add: "AddCustomIgnore now l uid d ign = Inr l'"
  shows "case snd (checker_pass id clock l') of
           Exit l'' \<Rightarrow> False
         | Next l'' \<Rightarrow> lookup_status (userMap l'') uid = None"
proof -
  let ?st = "new_UserStatus\<lparr>custom := Some \<lparr>startTime = now, duration = d,
                                              ignoreException = ign\<rparr>\<rparr>"
  let ?m' = "AList.update uid (Some ?st) m"
  from alloc unseen add have l': "userMap l' = Some ?m'" "mutex l' = mutex l"
    "isEnabled l' = isEnabled l" "isStopped l' = isStopped l"
    by (auto simp: AddCustomIgnore_def Let_def split: option.splits if_splits)
  have d: "distinct (map fst ?m')" using keys by (rule distinct_update)
  have ne: "?m' \<noteq> []" by (cases m) auto
  let ?l1 = "if maxTimeout l' <s Second then SetDefaultInterval l' else l'"
  have l1: "userMap ?l1 = Some ?m'" "mutex ?l1 = mutex l"
    using l' by (simp_all add: SetDefaultInterval_def)
  have "map_of (sweep clock ?l1 ?m' ?m') uid = None"
    using fresh_status_eligible
    by (simp add: sweep_lookup [OF d] update_conv')
  then show ?thesis
    using run alloc(1) l' l1 ne
    by (auto simp: checker_pass_def Let_def lookup_status_def SetDefaultInterval_def
        split: option.splits)
qed

text \<open>
  C1. A status with an active override is not safe from eviction. On a limiter that has
  just been started, \<^verbatim>\<open>AddCustomIgnore(7, 0, false)\<close> at the instant 1000 gives identity 7
  a status with an override that never expires; at the instant 2000 the override is
  active, \<open>canBeDeleted\<close> answers \<open>True\<close> all the same, and the pass of the reaper
  leaves the registry empty.
\<close>

theorem fresh_override_evicted:
  "(case AddCustomIgnore 1000 (Start zero_Limiter) 7 0 False of
      Inl e \<Rightarrow> False
    | Inr l \<Rightarrow>
        lookup_status (userMap l) 7
          = Some \<lparr>Last = 0, limited = False, count = 0,
                  custom = Some \<lparr>startTime = 1000, duration = 0, ignoreException = False\<rparr>\<rparr> \<and>
        IsCustomLimited 2000
          \<lparr>Last = 0, limited = False, count = 0,
           custom = Some \<lparr>startTime = 1000, duration = 0, ignoreException = False\<rparr>\<rparr>
          = (True, \<lparr>Last = 0, limited = False, count = 0,
                   custom = Some \<lparr>startTime = 1000, duration = 0,
                                    ignoreException = False\<rparr>\<rparr>) \<and>
        fst (canBeDeleted 2000
          \<lparr>Last = 0, limited = False, count = 0,
           custom = Some \<lparr>startTime = 1000, duration = 0, ignoreException = False\<rparr>\<rparr> l) \<and>
        (case snd (checker_pass id (still_clock 2000) l) of
           Exit l' \<Rightarrow> False
         | Next l' \<Rightarrow> userMap l' = Some []))"
  by (simp add: AddCustomIgnore_def Start_def zero_Limiter_def lookup_status_def
      new_UserStatus_def checker_pass_def SetDefaultInterval_def canBeDeleted_def
      IsCustomLimited_def IsZero_def Second_def Minute_def word_sless_alt)

text \<open>
  C2. \<open>IsCustomLimited\<close> answers \<open>False\<close> for a status with no override. With an
  override of a non-zero duration that the time since its start exceeds, it clears the
  override and answers \<open>False\<close>. With an override of duration zero it answers
  \<open>True\<close> at every instant, and in every remaining case (an override that has not run
  out) it answers \<open>True\<close>; in both the status is left as it was.
\<close>

theorem IsCustomLimited_cases:
  "(custom s = None \<longrightarrow> IsCustomLimited now s = (False, s)) \<and>
   (\<forall>c. custom s = Some c \<longrightarrow>
      (duration c \<noteq> 0 \<and> duration c <s Since now (startTime c) \<longrightarrow>
         IsCustomLimited now s = (False, s\<lparr>custom := None\<rparr>)) \<and>
      (duration c = 0 \<longrightarrow> IsCustomLimited now s = (True, s)) \<and>
      (\<not> (duration c \<noteq> 0 \<and> duration c <s Since now (startTime c)) \<longrightarrow>
         IsCustomLimited now s = (True, s)))"
proof (cases "custom s")
  case None
  then show ?thesis by (simp add: IsCustomLimited_def)
next
  case (Some c)
  show ?thesis
  proof (cases "duration c <s Since now (startTime c) \<and> duration c \<noteq> 0")
    case True
    with Some show ?thesis by (simp add: IsCustomLimited_def)
  next
    case False
    with Some have "IsCustomLimited now s = (True, s)"
      by (simp add: IsCustomLimited_def)
    with Some False show ?thesis by auto
  qed
qed

theorem IsCustomLimited_cases_witness:
  "IsCustomLimited 5000 \<lparr>Last = 0, limited = False, count = 0, custom = None\<rparr>
     = (False, \<lparr>Last = 0, limited = False, count = 0, custom = None\<rparr>) \<and>
   (5 :: Duration) \<noteq> 0 \<and> (5 :: Duration) <s Since 5000 1000 \<and>
   IsCustomLimited 5000
     \<lparr>Last = 0, limited = False, count = 0,
      custom = Some \<lparr>startTime = 1000, duration = 5, ignoreException = False\<rparr>\<rparr>
     = (False, \<lparr>Last = 0, limited = False, count = 0, custom = None\<rparr>) \<and>
   IsCustomLimited 5000
     \<lparr>Last = 0, limited = False, count = 0,
      custom = Some \<lparr>startTime = 1000, duration = 0, ignoreException = False\<rparr>\<rparr>
     = (True, \<lparr>Last = 0, limited = False, count = 0,
              custom = Some \<lparr>startTime = 1000, duration = 0, ignoreException = False\<rparr>\<rparr>) \<and>
   \<not> (9000 :: Duration) <s Since 5000 1000 \<and>
   IsCustomLimited 5000
     \<lparr>Last = 0, limited = False, count = 0,
      custom = Some \<lparr>startTime = 1000, duration = 9000, ignoreException = True\<rparr>\<rparr>
     = (True, \<lparr>Last = 0, limited = False, count = 0,
              custom = Some \<lparr>startTime = 1000, duration = 9000, ignoreException = True\<rparr>\<rparr>)"
  using IsCustomLimited_cases [where now = 5000 and s = "\<lparr>Last = 0, limited = False, count = 0, custom = None\<rparr>"]
    IsCustomLimited_cases [where now = 5000 and s = "\<lparr>Last = 0, limited = False, count = 0,
      custom = Some \<lparr>startTime = 1000, duration = 5, ignoreException = False\<rparr>\<rparr>"]
    IsCustomLimited_cases [where now = 5000 and s = "\<lparr>Last = 0, limited = False, count = 0,
      custom = Some \<lparr>startTime = 1000, duration = 0, ignoreException = False\<rparr>\<rparr>"]
    IsCustomLimited_cases [where now = 5000 and s = "\<lparr>Last = 0, limited = False, count = 0,
      custom = Some \<lparr>startTime = 1000, duration = 9000, ignoreException = True\<rparr>\<rparr>"]
  by (simp add: Since_def sint_maxDuration sint_minDuration)

section \<open>Configuration of the reaper's interval\<close>

text \<open>
  C3. \<open>SetMaxCacheDuration l d\<close> sets the interval to \<open>d\<close> when \<open>d\<close> is greater
  than punishment plus window (the \<^verbatim>\<open>int64\<close> sum, compared as signed), and to punishment
  plus window plus one minute otherwise. With a punishment of 30 seconds and a window of
  10 seconds, \<open>SetMaxCacheDuration\<close> of 5 seconds gives 30 + 10 + 60 = 100 seconds.
\<close>

theorem SetMaxCacheDuration_interval:
  "(punishment l + timeout l <s d \<longrightarrow> maxTimeout (SetMaxCacheDuration l d) = d) \<and>
   (d \<le>s punishment l + timeout l \<longrightarrow>
      maxTimeout (SetMaxCacheDuration l d) = punishment l + timeout l + Minute) \<and>
   (punishment l = 30 * Second \<and> timeout l = 10 * Second \<longrightarrow>
      maxTimeout (SetMaxCacheDuration l (5 * Second)) = 100 * Second)"
  by (auto simp: SetMaxCacheDuration_def Minute_def Second_def)

theorem SetMaxCacheDuration_interval_witness:
  "punishment (SetFloodWaitTime (SetPunishmentDuration zero_Limiter (30 * Second)) (10 * Second))
     = 30 * Second \<and>
   timeout (SetFloodWaitTime (SetPunishmentDuration zero_Limiter (30 * Second)) (10 * Second))
     = 10 * Second \<and>
   maxTimeout (SetMaxCacheDuration
     (SetFloodWaitTime (SetPunishmentDuration zero_Limiter (30 * Second)) (10 * Second))
     (5 * Second)) = 100 * Second \<and>
   30 * Second + 10 * Second <s 41 * Second \<and>
   maxTimeout (SetMaxCacheDuration
     (SetFloodWaitTime (SetPunishmentDuration zero_Limiter (30 * Second)) (10 * Second))
     (41 * Second)) = 41 * Second"
  using SetMaxCacheDuration_interval
    [of "SetFloodWaitTime (SetPunishmentDuration zero_Limiter (30 * Second)) (10 * Second)"
        "5 * Second"]
    SetMaxCacheDuration_interval
    [of "SetFloodWaitTime (SetPunishmentDuration zero_Limiter (30 * Second)) (10 * Second)"
        "41 * Second"]
  by (simp add: SetFloodWaitTime_def SetPunishmentDuration_def Second_def)

text \<open>
  In that scenario the interval is not 101 seconds.
\<close>

theorem SetMaxCacheDuration_scenario_counterexample:
  "maxTimeout (SetMaxCacheDuration
     (SetFloodWaitTime (SetPunishmentDuration zero_Limiter (30 * Second)) (10 * Second))
     (5 * Second)) \<noteq> 101 * Second"
  by (simp add: SetMaxCacheDuration_def SetFloodWaitTime_def SetPunishmentDuration_def
      zero_Limiter_def Minute_def Second_def)

section \<open>Custom overrides\<close>

text \<open>
  C4. On a limiter whose lock and registry map are allocated, \<open>AddCustomIgnore\<close>
  returns normally, and afterwards the status of \<open>uid\<close> is its former status, or
  \<^verbatim>\<open>new(UserStatus)\<close> when it had none, with the override
  \<open>\<lparr>startTime = now, duration = d, ignoreException = ign\<rparr>\<close>; the other keys of the
  registry hold what they held; with \<open>ign\<close> the identity is in the ignored-exceptions
  list afterwards (appended when it was not there), without \<open>ign\<close> that list is
  unchanged.
\<close>

theorem AddCustomIgnore_installs:
  assumes "mutex l \<noteq> None" and "userMap l = Some m"
  shows "case AddCustomIgnore now l uid d ign of
           Inl e \<Rightarrow> False
         | Inr l' \<Rightarrow>
             lookup_status (userMap l') uid =
               Some ((case lookup_status (userMap l) uid of
                        None \<Rightarrow> new_UserStatus | Some st \<Rightarrow> st)
                     \<lparr>custom := Some \<lparr>startTime = now, duration = d,
                                      ignoreException = ign\<rparr>\<rparr>) \<and>
             (case userMap l' of
                None \<Rightarrow> False
              | Some m' \<Rightarrow> \<forall>k. k \<noteq> uid \<longrightarrow> map_of m' k = map_of m k) \<and>
             (ign \<longrightarrow> uid \<in> set (ignoredExceptions l') \<and>
                ignoredExceptions l' =
                  (if uid \<in> set (ignoredExceptions l) then ignoredExceptions l
                   else ignoredExceptions l @ [uid])) \<and>
             (\<not> ign \<longrightarrow> ignoredExceptions l' = ignoredExceptions l)"
  using assms
  by (cases "lookup_status (Some m) uid")
    (auto simp: AddCustomIgnore_def Let_def lookup_status_update ignoredExceptions_add
      update_conv')

theorem AddCustomIgnore_installs_witness:
  "mutex (Start zero_Limiter) \<noteq> None \<and> userMap (Start zero_Limiter) = Some [] \<and>
   (case AddCustomIgnore 1000 (Start zero_Limiter) 7 (5 * Second) True of
      Inl e \<Rightarrow> False
    | Inr l' \<Rightarrow>
        lookup_status (userMap l') 7 =
          Some \<lparr>Last = 0, limited = False, count = 0,
                custom = Some \<lparr>startTime = 1000, duration = 5 * Second,
                                 ignoreException = True\<rparr>\<rparr> \<and>
        ignoredExceptions l' = [7])"
proof -
  have m: "mutex (Start zero_Limiter) \<noteq> None"
    by (simp add: Start_def zero_Limiter_def)
  have u: "userMap (Start zero_Limiter) = Some []"
    by (simp add: Start_def zero_Limiter_def)
  have i: "ignoredExceptions (Start zero_Limiter) = []"
    by (simp add: Start_def zero_Limiter_def)
  show ?thesis
    using m u AddCustomIgnore_installs [OF m u, where now = 1000 and uid = 7 and d = "5 * Second" and ign = True]
    by (auto simp: i u lookup_status_def new_UserStatus_def split: sum.splits)
qed

text \<open>
  On a limiter that has been stopped the lock is nil, and \<open>AddCustomIgnore\<close> panics
  at \<^verbatim>\<open>l.mutex.Lock()\<close> without installing anything.
\<close>

theorem AddCustomIgnore_stopped_counterexample:
  "AddCustomIgnore 1000 (Stop (Start zero_Limiter)) 7 (5 * Second) True
     = Inl NilPointerDereference"
  by (simp add: AddCustomIgnore_def Stop_def Start_def zero_Limiter_def)

section \<open>The identity lists\<close>

text \<open>
  C5. \<open>AddExceptionID\<close> appends its arguments to the exception-ID list and checks
  nothing: after \<open>AddExceptionID l [uid]\<close> the identity is in the list and occurs once
  more than before, so it occurs at most once exactly when it was not in the list
  before.
\<close>

theorem AddExceptionID_appends:
  "exceptionIDs (AddExceptionID l ids) = exceptionIDs l @ ids \<and>
   IsInExceptionList (AddExceptionID l [uid]) uid \<and>
   count_list (exceptionIDs (AddExceptionID l [uid])) uid
     = Suc (count_list (exceptionIDs l) uid) \<and>
   (count_list (exceptionIDs (AddExceptionID l [uid])) uid \<le> 1
      \<longleftrightarrow> uid \<notin> set (exceptionIDs l))"
proof -
  have app: "exceptionIDs (AddExceptionID l ids) = exceptionIDs l @ ids" for ids
    by (simp add: AddExceptionID_def)
  have member: "IsInExceptionList (AddExceptionID l [uid]) uid"
    by (simp add: IsInExceptionList_def app scan_ids_iff)
  have occurs:
    "count_list (exceptionIDs (AddExceptionID l [uid])) uid
       = Suc (count_list (exceptionIDs l) uid)"
    by (simp add: app)
  have "count_list (exceptionIDs l) uid = 0 \<longleftrightarrow> uid \<notin> set (exceptionIDs l)"
    by (simp add: count_list_0_iff)
  with app member occurs show ?thesis by simp
qed

theorem AddExceptionID_appends_witness:
  "exceptionIDs (AddExceptionID (AddExceptionID zero_Limiter [5]) [5]) = [5, 5] \<and>
   count_list (exceptionIDs (AddExceptionID (AddExceptionID zero_Limiter [5]) [5])) 5 = 2 \<and>
   count_list (exceptionIDs (AddExceptionID zero_Limiter [5])) 5 = 1"
  using AddExceptionID_appends [of "AddExceptionID zero_Limiter [5]" "[5]" 5]
    AddExceptionID_appends [of zero_Limiter "[5]" 5]
  by (simp add: zero_Limiter_def)

text \<open>
  Adding the same identity twice leaves it twice in the list.
\<close>

theorem AddExceptionID_duplicate_counterexample:
  "\<not> count_list (exceptionIDs (AddExceptionID (AddExceptionID zero_Limiter [5]) [5])) 5 \<le> 1"
  by (simp add: AddExceptionID_def zero_Limiter_def)

text \<open>
  C9. \<open>addIgnoredExceptions\<close> leaves the limiter as it is when the identity is in the
  ignored-exceptions list and appends it once otherwise; \<open>removeFromIgnoredExceptions\<close>
  removes the first occurrence of the identity and leaves the limiter as it is when there
  is none. Both keep a list without duplicates free of them.
\<close>

theorem ignoredExceptions_no_duplicates:
  "(uid \<in> set (ignoredExceptions l) \<longrightarrow> addIgnoredExceptions l uid = l) \<and>
   (uid \<notin> set (ignoredExceptions l) \<longrightarrow>
      ignoredExceptions (addIgnoredExceptions l uid) = ignoredExceptions l @ [uid]) \<and>
   ignoredExceptions (removeFromIgnoredExceptions l uid) = remove1 uid (ignoredExceptions l) \<and>
   (uid \<notin> set (ignoredExceptions l) \<longrightarrow> removeFromIgnoredExceptions l uid = l) \<and>
   (distinct (ignoredExceptions l) \<longrightarrow>
      distinct (ignoredExceptions (addIgnoredExceptions l uid)) \<and>
      distinct (ignoredExceptions (removeFromIgnoredExceptions l uid)))"
  by (auto simp: addIgnoredExceptions_def removeFromIgnoredExceptions_def scan_ids_iff
      remove_scan_remove1 remove1_idem)

theorem ignoredExceptions_no_duplicates_witness:
  "ignoredExceptions (addIgnoredExceptions (zero_Limiter\<lparr>ignoredExceptions := [1, 2, 3]\<rparr>) 2)
     = [1, 2, 3] \<and>
   ignoredExceptions (addIgnoredExceptions (zero_Limiter\<lparr>ignoredExceptions := [1, 2, 3]\<rparr>) 4)
     = [1, 2, 3, 4] \<and>
   ignoredExceptions (removeFromIgnoredExceptions (zero_Limiter\<lparr>ignoredExceptions := [1, 2, 3]\<rparr>) 2)
     = [1, 3] \<and>
   removeFromIgnoredExceptions (zero_Limiter\<lparr>ignoredExceptions := [1, 2, 3]\<rparr>) 4
     = zero_Limiter\<lparr>ignoredExceptions := [1, 2, 3]\<rparr> \<and>
   distinct (ignoredExceptions (addIgnoredExceptions (zero_Limiter\<lparr>ignoredExceptions := [1, 2, 3]\<rparr>) 4))"
  using ignoredExceptions_no_duplicates [of 2 "zero_Limiter\<lparr>ignoredExceptions := [1, 2, 3]\<rparr>"]
    ignoredExceptions_no_duplicates [of 4 "zero_Limiter\<lparr>ignoredExceptions := [1, 2, 3]\<rparr>"]
  by simp

text \<open>
  C10. \<open>isException\<close> returns \<open>False\<close> when the message is nil or the exception-ID
  list is empty, and \<open>isExceptionQuery\<close> when the callback query is nil or the list is
  empty. Neither reaches its loop then: with a nil message and identities in the list the
  first membership test of the loop would panic.
\<close>

theorem exception_checks_absent_input:
  "(msg = None \<or> exceptionIDs l = [] \<longrightarrow> isException l msg = Inr False) \<and>
   (cq = None \<or> exceptionIDs l = [] \<longrightarrow> isExceptionQuery l cq = Inr False)"
proof (intro conjI impI)
  assume "msg = None \<or> exceptionIDs l = []"
  then have "length (exceptionIDs l) = 0 \<or> msg = None" by auto
  then show "isException l msg = Inr False"
    unfolding isException_def by (simp only: if_True)
next
  assume "cq = None \<or> exceptionIDs l = []"
  then have "length (exceptionIDs l) = 0 \<or> cq = None" by auto
  then show "isExceptionQuery l cq = Inr False"
    unfolding isExceptionQuery_def by (simp only: if_True)
qed

theorem exception_checks_absent_input_witness:
  "isException (AddExceptionID zero_Limiter [5]) None = Inr False \<and>
   isException_loop (exceptionIDs (AddExceptionID zero_Limiter [5])) None
     = Inl NilPointerDereference \<and>
   isExceptionQuery (AddExceptionID zero_Limiter [5]) None = Inr False \<and>
   isException zero_Limiter (Some \<lparr>From = None, Chat = \<lparr>Chat_Id = 5\<rparr>, Text = ''hi''\<rparr>)
     = Inr False \<and>
   isExceptionQuery zero_Limiter (Some \<lparr>cq_From = \<lparr>User_Id = 5\<rparr>, cq_Message = None\<rparr>)
     = Inr False"
  using exception_checks_absent_input [of None "AddExceptionID zero_Limiter [5]" None]
    exception_checks_absent_input
      [of "Some \<lparr>From = None, Chat = \<lparr>Chat_Id = 5\<rparr>, Text = ''hi''\<rparr>" zero_Limiter
          "Some \<lparr>cq_From = \<lparr>User_Id = 5\<rparr>, cq_Message = None\<rparr>"]
  by (simp add: zero_Limiter_def AddExceptionID_def)

section \<open>Lifecycle and the reaper\<close>

text \<open>
  C6. After \<open>Stop\<close> has released the map and the lock, \<open>GetStatus\<close>,
  \<open>AddCustomIgnore\<close> and \<open>RemoveCustomIgnore\<close> do not return quietly: each panics on
  the nil lock. The reaper does test for the nil map and the nil lock: a pass during whose
  sleep the limiter is stopped ends the loop, and so does a pass that starts on a stopped
  limiter.
\<close>

theorem torn_down_registry_panics:
  "mutex (Stop (Start zero_Limiter)) = None \<and>
   userMap (Stop (Start zero_Limiter)) = None \<and>
   GetStatus (Stop (Start zero_Limiter)) 7 = Inl NilPointerDereference \<and>
   AddCustomIgnore 1000 (Stop (Start zero_Limiter)) 7 Second False = Inl NilPointerDereference \<and>
   RemoveCustomIgnore (Stop (Start zero_Limiter)) 7 = Inl NilPointerDereference \<and>
   checker_pass Stop (still_clock 1000) (Start zero_Limiter)
     = (Some Minute, Exit (Stop (SetDefaultInterval (Start zero_Limiter)))) \<and>
   checker_pass id (still_clock 1000) (Stop (Start zero_Limiter))
     = (None, Exit (Stop (Start zero_Limiter)))"
  by (simp add: GetStatus_def AddCustomIgnore_def RemoveCustomIgnore_def checker_pass_def
      SetDefaultInterval_def Stop_def Start_def zero_Limiter_def Second_def Minute_def
      word_sless_alt)

text \<open>
  The loop of the reaper returns: at once on a limiter that is not running, and after one
  sleep when the limiter is stopped during it.
\<close>

lemma checker_not_running:
  "\<not> (isEnabled l \<and> \<not> isStopped l) \<Longrightarrow> checker (Suc fuel) env clock i l = Some ([], l)"
  by (simp add: checker_pass_def)

lemma checker_stopped_in_sleep:
  "checker (Suc fuel) (\<lambda>i. Stop) clock 0 (Start zero_Limiter)
     = Some ([Minute], Stop (SetDefaultInterval (Start zero_Limiter)))"
  by (simp add: checker_pass_def SetDefaultInterval_def Stop_def Start_def zero_Limiter_def
      Second_def Minute_def word_sless_alt)

text \<open>
  C7. A pass of the reaper on an enabled limiter that is not stopped sleeps for the
  configured interval when that is at least a second, and otherwise for the default,
  punishment plus window plus one minute, to which it resets the interval first: what
  runs during the sleep (\<open>env\<close>) runs on the limiter with the interval reset, the pass
  changes nothing else but the registry map, and with nothing else running the limiter
  has the interval slept for after the pass. The sleep is at least a second whenever that
  default is, and the default is at least a second when punishment and window are not
  negative and the sum does not overflow.
\<close>

theorem checker_pass_sleep:
  "isEnabled l \<and> \<not> isStopped l \<longrightarrow>
     (case fst (checker_pass env clock l) of
        None \<Rightarrow> False
      | Some d \<Rightarrow>
          d = (if maxTimeout l <s Second then punishment l + timeout l + Minute
               else maxTimeout l) \<and>
          (Second \<le>s punishment l + timeout l + Minute \<longrightarrow> Second \<le>s d) \<and>
          (0 \<le>s punishment l \<and> 0 \<le>s timeout l \<and>
           sint (punishment l) + sint (timeout l) + sint Minute \<le> sint maxDuration
             \<longrightarrow> Second \<le>s d)) \<and>
     (case snd (checker_pass env clock l) of
        Exit l' \<Rightarrow>
          l' = env (if maxTimeout l <s Second
                    then l\<lparr>maxTimeout := punishment l + timeout l + Minute\<rparr> else l)
      | Next l' \<Rightarrow>
          l'\<lparr>userMap :=
              userMap (env (if maxTimeout l <s Second
                            then l\<lparr>maxTimeout := punishment l + timeout l + Minute\<rparr>
                            else l))\<rparr>
            = env (if maxTimeout l <s Second
                   then l\<lparr>maxTimeout := punishment l + timeout l + Minute\<rparr> else l)) \<and>
     (case snd (checker_pass id clock l) of
        Exit l' \<Rightarrow>
          maxTimeout l' = (if maxTimeout l <s Second then punishment l + timeout l + Minute
                           else maxTimeout l)
      | Next l' \<Rightarrow>
          maxTimeout l' = (if maxTimeout l <s Second then punishment l + timeout l + Minute
                           else maxTimeout l))"
proof (intro impI conjI)
  assume run: "isEnabled l \<and> \<not> isStopped l"
  let ?d = "if maxTimeout l <s Second then punishment l + timeout l + Minute else maxTimeout l"
  let ?l1 = "if maxTimeout l <s Second
             then l\<lparr>maxTimeout := punishment l + timeout l + Minute\<rparr> else l"
  have f: "fst (checker_pass env clock l) = Some ?d"
    using run
    by (simp add: checker_pass_def SetDefaultInterval_def Let_def
        split: option.splits prod.splits)
  have g: "Second \<le>s punishment l + timeout l + Minute \<Longrightarrow> Second \<le>s ?d"
    by auto
  have h: "0 \<le>s punishment l \<and> 0 \<le>s timeout l \<and>
           sint (punishment l) + sint (timeout l) + sint Minute \<le> sint maxDuration
           \<Longrightarrow> Second \<le>s ?d"
    using default_interval_ge_Second [of "punishment l" "timeout l"] g by blast
  show "case fst (checker_pass env clock l) of
        None \<Rightarrow> False
      | Some d \<Rightarrow>
          d = ?d \<and>
          (Second \<le>s punishment l + timeout l + Minute \<longrightarrow> Second \<le>s d) \<and>
          (0 \<le>s punishment l \<and> 0 \<le>s timeout l \<and>
           sint (punishment l) + sint (timeout l) + sint Minute \<le> sint maxDuration
             \<longrightarrow> Second \<le>s d)"
    unfolding f using g h by simp
  have state: "case snd (checker_pass e clock l) of
        Exit l' \<Rightarrow> l' = e ?l1
      | Next l' \<Rightarrow> l'\<lparr>userMap := userMap (e ?l1)\<rparr> = e ?l1" for e
    using run
    by (simp add: checker_pass_def SetDefaultInterval_def Let_def
        split: option.splits)
  from state [of env]
  show "case snd (checker_pass env clock l) of
        Exit l' \<Rightarrow> l' = env ?l1
      | Next l' \<Rightarrow> l'\<lparr>userMap := userMap (env ?l1)\<rparr> = env ?l1" .
  have m: "maxTimeout ?l1 = ?d" by simp
  show "case snd (checker_pass id clock l) of
        Exit l' \<Rightarrow> maxTimeout l' = ?d
      | Next l' \<Rightarrow> maxTimeout l' = ?d"
  proof (cases "snd (checker_pass id clock l)")
    case (Exit l')
    with state [of id] m show ?thesis by simp
  next
    case (Next l')
    with state [of id] have "l'\<lparr>userMap := userMap ?l1\<rparr> = ?l1" by simp
    then have "maxTimeout (l'\<lparr>userMap := userMap ?l1\<rparr>) = maxTimeout ?l1" by (rule arg_cong)
    with m Next show ?thesis by simp
  qed
qed

theorem checker_pass_sleep_witness:
  "isEnabled (Start (SetFloodWaitTime (SetPunishmentDuration zero_Limiter (30 * Second))
     (10 * Second))) \<and>
   \<not> isStopped (Start (SetFloodWaitTime (SetPunishmentDuration zero_Limiter (30 * Second))
     (10 * Second))) \<and>
   maxTimeout (Start (SetFloodWaitTime (SetPunishmentDuration zero_Limiter (30 * Second))
     (10 * Second))) <s Second \<and>
   (0 :: Duration) \<le>s 30 * Second \<and> (0 :: Duration) \<le>s 10 * Second \<and>
   sint (30 * Second) + sint (10 * Second) + sint Minute \<le> sint maxDuration \<and>
   fst (checker_pass id (still_clock 1000)
     (Start (SetFloodWaitTime (SetPunishmentDuration zero_Limiter (30 * Second))
        (10 * Second)))) = Some (100 * Second) \<and>
   Second \<le>s 100 * Second \<and>
   (case snd (checker_pass id (still_clock 1000)
      (Start (SetFloodWaitTime (SetPunishmentDuration zero_Limiter (30 * Second))
         (10 * Second)))) of
      Exit l' \<Rightarrow> maxTimeout l' = 100 * Second
    | Next l' \<Rightarrow> maxTimeout l' = 100 * Second)"
proof -
  let ?l = "Start (SetFloodWaitTime (SetPunishmentDuration zero_Limiter (30 * Second))
     (10 * Second))"
  have fields: "isEnabled ?l" "\<not> isStopped ?l" "maxTimeout ?l = 0"
    "punishment ?l = 30 * Second" "timeout ?l = 10 * Second"
    by (simp_all add: Start_def SetFloodWaitTime_def SetPunishmentDuration_def
        zero_Limiter_def)
  have arith: "(0 :: Duration) <s Second" "(0 :: Duration) \<le>s 30 * Second"
    "(0 :: Duration) \<le>s 10 * Second" "30 * Second + 10 * Second + Minute = 100 * Second"
    "sint (30 * Second) + sint (10 * Second) + sint Minute \<le> sint maxDuration"
    by (simp_all add: Second_def Minute_def maxDuration_def word_sless_alt word_sle_eq)
  have run: "isEnabled ?l \<and> \<not> isStopped ?l"
    using fields(1,2) by simp
  have short: "maxTimeout ?l <s Second"
    using arith(1) by (simp only: fields(3))
  have reset: "(if maxTimeout ?l <s Second then punishment ?l + timeout ?l + Minute
                else maxTimeout ?l) = 100 * Second"
    using short by (simp only: if_True fields(4,5) arith(4))
  from checker_pass_sleep [of ?l id "still_clock 1000"] run
  obtain d where d: "fst (checker_pass id (still_clock 1000) ?l) = Some d"
    and v: "d = (if maxTimeout ?l <s Second then punishment ?l + timeout ?l + Minute
                 else maxTimeout ?l)"
    and ge: "0 \<le>s punishment ?l \<and> 0 \<le>s timeout ?l \<and>
             sint (punishment ?l) + sint (timeout ?l) + sint Minute \<le> sint maxDuration
             \<longrightarrow> Second \<le>s d"
    by (auto split: option.splits)
  from v reset have d100: "d = 100 * Second"
    by (simp only:)
  from ge arith(2,3,5) have "Second \<le>s d"
    by (simp only: fields(4,5) simp_thms)
  moreover from checker_pass_sleep [of ?l id "still_clock 1000"] run
  have "case snd (checker_pass id (still_clock 1000) ?l) of
      Exit l' \<Rightarrow> maxTimeout l' = 100 * Second
    | Next l' \<Rightarrow> maxTimeout l' = 100 * Second"
    by (simp only: reset simp_thms)
  ultimately show ?thesis
    using d d100 run short arith(2,3,5) by (simp only: simp_thms)
qed

text \<open>
  With a punishment of minus one minute and a window of zero the default is zero, and the
  reaper sleeps for no time at all.
\<close>

theorem checker_pass_sleep_counterexample:
  "isEnabled (Start (SetPunishmentDuration zero_Limiter (- Minute))) \<and>
   \<not> isStopped (Start (SetPunishmentDuration zero_Limiter (- Minute))) \<and>
   fst (checker_pass id (still_clock 1000) (Start (SetPunishmentDuration zero_Limiter (- Minute))))
     = Some 0 \<and>
   (0 :: Duration) <s Second"
  by (simp add: checker_pass_def SetDefaultInterval_def Start_def SetPunishmentDuration_def
      zero_Limiter_def Minute_def Second_def word_sless_alt)

text \<open>
  C8. \<open>Stop\<close> on a limiter that is not stopped disables it, marks it stopped and
  releases the registry map and its lock: both are nil afterwards. Window, punishment,
  maximal count, interval, text-only flag, exception-ID list, ignored-exceptions list,
  conditions, exception filters and triggers keep their values. The limiter is one that
  has no map without a lock, as every limiter is that the methods reach.
\<close>

theorem Stop_effect:
  assumes "\<not> isStopped l" and "mutex l = None \<longrightarrow> userMap l = None"
  shows "isEnabled (Stop l) = False \<and> isStopped (Stop l) = True \<and>
     mutex (Stop l) = None \<and> userMap (Stop l) = None \<and>
     timeout (Stop l) = timeout l \<and> punishment (Stop l) = punishment l \<and>
     maxCount (Stop l) = maxCount l \<and> maxTimeout (Stop l) = maxTimeout l \<and>
     TextOnly (Stop l) = TextOnly l \<and> exceptionIDs (Stop l) = exceptionIDs l \<and>
     ignoredExceptions (Stop l) = ignoredExceptions l \<and>
     conditions (Stop l) = conditions l \<and> exceptions (Stop l) = exceptions l \<and>
     triggers (Stop l) = triggers l"
proof (cases "mutex l")
  case None
  with assms show ?thesis by (simp add: Stop_def Let_def)
next
  case (Some mu)
  with assms(1) show ?thesis by (simp add: Stop_def Let_def)
qed

theorem Stop_effect_witness:
  "\<not> isStopped (Start (SetMaxMessageCount (SetFloodWaitTime zero_Limiter (10 * Second)) 3)) \<and>
   mutex (Start (SetMaxMessageCount (SetFloodWaitTime zero_Limiter (10 * Second)) 3))
     = Some RWMutex \<and>
   userMap (Start (SetMaxMessageCount (SetFloodWaitTime zero_Limiter (10 * Second)) 3))
     = Some [] \<and>
   isStopped (Stop (Start (SetMaxMessageCount (SetFloodWaitTime zero_Limiter (10 * Second)) 3))) \<and>
   \<not> isEnabled (Stop (Start (SetMaxMessageCount (SetFloodWaitTime zero_Limiter (10 * Second)) 3))) \<and>
   mutex (Stop (Start (SetMaxMessageCount (SetFloodWaitTime zero_Limiter (10 * Second)) 3))) = None \<and>
   userMap (Stop (Start (SetMaxMessageCount (SetFloodWaitTime zero_Limiter (10 * Second)) 3))) = None \<and>
   timeout (Stop (Start (SetMaxMessageCount (SetFloodWaitTime zero_Limiter (10 * Second)) 3)))
     = 10 * Second \<and>
   maxCount (Stop (Start (SetMaxMessageCount (SetFloodWaitTime zero_Limiter (10 * Second)) 3))) = 3"
proof -
  let ?l = "Start (SetMaxMessageCount (SetFloodWaitTime zero_Limiter (10 * Second)) 3)"
  have fields: "\<not> isStopped ?l" "mutex ?l = Some RWMutex" "userMap ?l = Some []"
    "timeout ?l = 10 * Second" "maxCount ?l = 3"
    by (simp_all add: Start_def SetMaxMessageCount_def SetFloodWaitTime_def zero_Limiter_def)
  have inv: "mutex ?l = None \<longrightarrow> userMap ?l = None"
    using fields(2) by simp
  from Stop_effect [OF fields(1) inv] fields show ?thesis
    by simp
qed

text \<open>
  The hypothesis on lock and map holds of every limiter the methods reach, so there
  \<open>Stop\<close> releases both.
\<close>

lemma Stop_releases_reachable:
  assumes "reachable l" and "\<not> isStopped l"
  shows "mutex (Stop l) = None \<and> userMap (Stop l) = None"
proof -
  from assms(1) have "map_has_lock l" by (rule reachable_map_has_lock)
  then have "mutex l = None \<longrightarrow> userMap l = None" by (simp add: map_has_lock_def)
  with assms(2) show ?thesis by (cases "mutex l") (simp_all add: Stop_def Let_def)
qed

end
